theory Spec2Isabelle
  imports Main "HOL-Library.Sublist"
begin

section \<open>The data of \<^verbatim>\<open>src/common/settings.ts\<close>\<close>

text \<open>
  The module reads the editor's configuration store and builds one \<^verbatim>\<open>ISettings\<close> object
  per workspace folder, or one for the global scope. Everything the module takes from its
  host (the process environment, the working directory, the open workspace folders, the
  configuration store and the interpreter lookup of \<^verbatim>\<open>./python\<close>) is collected in the
  record \<open>Host\<close> and passed to every function explicitly.

  Strings are lists of characters. A \<^verbatim>\<open>Promise<T>\<close> is modelled by the value it is
  fulfilled with, and \<^verbatim>\<open>T | undefined\<close> by \<open>T option\<close>; the operator \<^verbatim>\<open>??\<close> treats
  \<^verbatim>\<open>null\<close> and \<^verbatim>\<open>undefined\<close> alike, so \<open>None\<close> stands for both.
\<close>

record Uri =
  fsPath :: string
  toString :: string

record WorkspaceFolder =
  uri :: Uri
  name :: string

datatype ConfigurationScope = ScopeUri Uri | ScopeWorkspaceFolder WorkspaceFolder

datatype ImportStrategy = fromEnvironment | useBundled

datatype Run = onType | onSave

text \<open>\<^verbatim>\<open>{ enable?: boolean }\<close>, the type of both members of \<^verbatim>\<open>CodeAction\<close>.\<close>

record EnableOption =
  enableOption :: "bool option"

record CodeAction =
  disableRuleComment :: "EnableOption option"
  fixViolation :: "EnableOption option"

record ISettings =
  cwd :: string
  workspace :: string
  args :: "string list"
  path :: "string list"
  interpreter :: "string list"
  importStrategy :: ImportStrategy
  run :: Run
  codeAction :: CodeAction
  enable :: bool
  enableExperimentalFormatter :: bool
  showNotifications :: string
  organizeImports :: bool
  fixAll :: bool

text \<open>
  The result of \<^verbatim>\<open>WorkspaceConfiguration.inspect<T>(key)\<close>; only the two members that
  \<^verbatim>\<open>getGlobalValue\<close> reads are kept.
\<close>

record 'a Inspect =
  globalValue :: "'a option"
  defaultValue :: "'a option"

text \<open>
  \<^verbatim>\<open>WorkspaceConfiguration\<close>: the generic methods \<^verbatim>\<open>get<T>(key)\<close> and
  \<^verbatim>\<open>inspect<T>(key)\<close>, one component for each type \<^verbatim>\<open>T\<close> at which the module calls them.
  The key stays a string.
\<close>

record WorkspaceConfiguration =
  get_strings :: "string \<Rightarrow> string list option"
  get_ImportStrategy :: "string \<Rightarrow> ImportStrategy option"
  get_Run :: "string \<Rightarrow> Run option"
  get_CodeAction :: "string \<Rightarrow> CodeAction option"
  get_boolean :: "string \<Rightarrow> bool option"
  get_string :: "string \<Rightarrow> string option"
  inspect_strings :: "string \<Rightarrow> string list Inspect option"
  inspect_ImportStrategy :: "string \<Rightarrow> ImportStrategy Inspect option"
  inspect_Run :: "string \<Rightarrow> Run Inspect option"
  inspect_CodeAction :: "string \<Rightarrow> CodeAction Inspect option"
  inspect_boolean :: "string \<Rightarrow> bool Inspect option"
  inspect_string :: "string \<Rightarrow> string Inspect option"

text \<open>\<^verbatim>\<open>IInterpreterDetails\<close> of \<^verbatim>\<open>./python\<close>: the member \<^verbatim>\<open>path?: string[]\<close>.\<close>

record IInterpreterDetails =
  interpreterPath :: "string list option"

text \<open>\<^verbatim>\<open>ConfigurationChangeEvent\<close>: the method \<^verbatim>\<open>affectsConfiguration(section)\<close>.\<close>

record ConfigurationChangeEvent =
  affectsConfiguration :: "string \<Rightarrow> bool"

text \<open>
  What the module reads from its host: \<^verbatim>\<open>process.env.HOME\<close>,
  \<^verbatim>\<open>process.env.USERPROFILE\<close>, \<^verbatim>\<open>process.cwd()\<close>, and the imported functions
  \<^verbatim>\<open>getWorkspaceFolders\<close>, \<^verbatim>\<open>getConfiguration\<close> (of \<^verbatim>\<open>./vscodeapi\<close>) and
  \<^verbatim>\<open>getInterpreterDetails\<close> (of \<^verbatim>\<open>./python\<close>), whose sources are not part of the module.
\<close>

record Host =
  env_HOME :: "string option"
  env_USERPROFILE :: "string option"
  process_cwd :: string
  getWorkspaceFolders :: "WorkspaceFolder list"
  getConfiguration :: "string \<Rightarrow> ConfigurationScope option \<Rightarrow> WorkspaceConfiguration"
  getInterpreterDetails :: "Uri \<Rightarrow> IInterpreterDetails"

section \<open>The JavaScript operations the module uses\<close>

text \<open>\<^verbatim>\<open>a ?? b\<close>.\<close>

definition nullish :: "'a option \<Rightarrow> 'a \<Rightarrow> 'a" where
  "nullish a b = (case a of None \<Rightarrow> b | Some v \<Rightarrow> v)"

text \<open>
  Truthiness of a \<^verbatim>\<open>string | undefined\<close>: \<^verbatim>\<open>undefined\<close> and the empty string are
  falsy. \<^verbatim>\<open>a || b\<close> is \<^verbatim>\<open>a\<close> when \<^verbatim>\<open>a\<close> is truthy and \<^verbatim>\<open>b\<close> otherwise.
\<close>

fun truthy :: "string option \<Rightarrow> bool" where
  "truthy None = False"
| "truthy (Some s) = (s \<noteq> [])"

definition logical_or :: "string option \<Rightarrow> string option \<Rightarrow> string option" where
  "logical_or a b = (if truthy a then a else b)"

text \<open>
  \<^verbatim>\<open>Map.prototype.set\<close> on a \<^verbatim>\<open>Map\<close> kept as the list of its entries in iteration
  order: a new key is appended, an existing key keeps its place and takes the new value.
\<close>

fun map_set :: "(string \<times> string) list \<Rightarrow> string \<Rightarrow> string \<Rightarrow> (string \<times> string) list" where
  "map_set [] k v = [(k, v)]"
| "map_set ((k', v') # m) k v =
     (if k' = k then (k, v) # m else (k', v') # map_set m k v)"

text \<open>\<open>startsWith s k\<close>: the string \<open>s\<close> begins with \<open>k\<close>.\<close>

fun startsWith :: "string \<Rightarrow> string \<Rightarrow> bool" where
  "startsWith s [] = True"
| "startsWith [] (k # ks) = False"
| "startsWith (c # cs) (k # ks) = (c = k \<and> startsWith cs ks)"

text \<open>
  \<^verbatim>\<open>StringIndexOf(s, k, 0)\<close>: the least position at which \<open>k\<close> occurs in \<open>s\<close>, if any.
\<close>

fun indexOf :: "string \<Rightarrow> string \<Rightarrow> nat option" where
  "indexOf [] k = (if k = [] then Some 0 else None)"
| "indexOf (c # cs) k =
     (if startsWith (c # cs) k then Some 0 else map_option Suc (indexOf cs k))"

text \<open>
  \<^verbatim>\<open>GetSubstitution(matched, str, position, captures, namedCaptures, template)\<close> of
  ECMAScript for a string pattern, where there are no captures: \<open>preceding\<close> is the part of
  \<^verbatim>\<open>str\<close> in front of the match and \<open>following\<close> the part behind it. In the template
  \<^verbatim>\<open>$$\<close> stands for a dollar sign, \<^verbatim>\<open>$`\<close> for \<open>preceding\<close>, \<^verbatim>\<open>$&\<close> for the match and
  \<^verbatim>\<open>$'\<close> for \<open>following\<close>. A dollar sign followed by digits or by \<^verbatim>\<open><\<close> refers to a capture,
  and is copied as it is when there is none, like every other character.
\<close>

fun getSubstitution :: "string \<Rightarrow> string \<Rightarrow> string \<Rightarrow> string \<Rightarrow> string" where
  "getSubstitution matched preceding following [] = []"
| "getSubstitution matched preceding following [c] = [c]"
| "getSubstitution matched preceding following (c # d # r) =
     (if c = CHR ''$'' \<and> d = CHR ''$'' then CHR ''$'' # getSubstitution matched preceding following r
      else if c = CHR ''$'' \<and> d = CHR 0x60 then preceding @ getSubstitution matched preceding following r
      else if c = CHR ''$'' \<and> d = CHR ''&'' then matched @ getSubstitution matched preceding following r
      else if c = CHR ''$'' \<and> d = CHR 0x27 then following @ getSubstitution matched preceding following r
      else c # getSubstitution matched preceding following (d # r))"

text \<open>
  \<^verbatim>\<open>s.replace(k, v)\<close> for strings \<open>k\<close> and \<open>v\<close>: the first occurrence of \<open>k\<close> in \<open>s\<close>, if
  there is one, is replaced by the expansion of the template \<open>v\<close>.
\<close>

definition String_replace :: "string \<Rightarrow> string \<Rightarrow> string \<Rightarrow> string" where
  "String_replace s k v =
     (case indexOf s k of
        None \<Rightarrow> s
      | Some p \<Rightarrow>
          take p s
          @ getSubstitution k (take p s) (drop (p + length k) s) v
          @ drop (p + length k) s)"

section \<open>The functions of the module\<close>

text \<open>
  The \<^verbatim>\<open>Map\<close> that \<^verbatim>\<open>resolveVariables\<close> fills before it maps over its argument
  (lines 49 to 60).
\<close>

definition substitutions :: "Host \<Rightarrow> WorkspaceFolder option \<Rightarrow> (string \<times> string) list" where
  "substitutions host folder =
     (let home = logical_or (env_HOME host) (env_USERPROFILE host);
          m1 = (case home of
                  None \<Rightarrow> []
                | Some h \<Rightarrow> if truthy (Some h) then map_set [] ''${userHome}'' h else []);
          m2 = (case folder of
                  None \<Rightarrow> m1
                | Some w \<Rightarrow> map_set m1 ''${workspaceFolder}'' (fsPath (uri w)));
          m3 = map_set m2 ''${cwd}'' (process_cwd host)
      in foldl (\<lambda>m w. map_set m (''${workspaceFolder:'' @ name w @ ''}'') (fsPath (uri w)))
           m3 (getWorkspaceFolders host))"

text \<open>The body of the function passed to \<^verbatim>\<open>value.map\<close> (lines 63 to 66).\<close>

definition substitute :: "(string \<times> string) list \<Rightarrow> string \<Rightarrow> string" where
  "substitute m s = foldl (\<lambda>s (k, v). String_replace s k v) s m"

definition resolveVariables :: "Host \<Rightarrow> string list \<Rightarrow> WorkspaceFolder option \<Rightarrow> string list" where
  "resolveVariables host strings folder =
     map (substitute (substitutions host folder)) strings"

definition getInterpreterFromSetting ::
  "Host \<Rightarrow> string \<Rightarrow> ConfigurationScope option \<Rightarrow> string list option" where
  "getInterpreterFromSetting host namespace scope =
     get_strings (getConfiguration host namespace scope) ''interpreter''"

definition getWorkspaceSettings :: "Host \<Rightarrow> string \<Rightarrow> WorkspaceFolder \<Rightarrow> ISettings" where
  "getWorkspaceSettings host namespace w =
     (let config = getConfiguration host namespace (Some (ScopeUri (uri w)));
          interpreter0 =
            nullish (getInterpreterFromSetting host namespace (Some (ScopeWorkspaceFolder w))) [];
          interpreter1 =
            (if length interpreter0 = 0
             then nullish (interpreterPath (getInterpreterDetails host (uri w))) []
             else interpreter0)
      in \<lparr> cwd = fsPath (uri w),
           workspace = toString (uri w),
           args = resolveVariables host (nullish (get_strings config ''args'') []) (Some w),
           path = resolveVariables host (nullish (get_strings config ''path'') []) (Some w),
           interpreter = resolveVariables host interpreter1 (Some w),
           importStrategy = nullish (get_ImportStrategy config ''importStrategy'') fromEnvironment,
           run = nullish (get_Run config ''run'') onType,
           codeAction =
             nullish (get_CodeAction config ''codeAction'')
               \<lparr> disableRuleComment = None, fixViolation = None \<rparr>,
           enable = nullish (get_boolean config ''enable'') True,
           enableExperimentalFormatter =
             nullish (get_boolean config ''enableExperimentalFormatter'') False,
           showNotifications = nullish (get_string config ''showNotifications'') ''off'',
           organizeImports = nullish (get_boolean config ''organizeImports'') True,
           fixAll = nullish (get_boolean config ''fixAll'') True \<rparr>)"

definition getExtensionSettings :: "Host \<Rightarrow> string \<Rightarrow> ISettings list" where
  "getExtensionSettings host namespace =
     map (\<lambda>workspaceFolder. getWorkspaceSettings host namespace workspaceFolder)
       (getWorkspaceFolders host)"

text \<open>
  \<^verbatim>\<open>getGlobalValue<T>(config, key, defaultValue)\<close>. The type argument is passed as the
  component of the configuration that is \<^verbatim>\<open>inspect<T>\<close>.
\<close>

definition getGlobalValue ::
  "(WorkspaceConfiguration \<Rightarrow> string \<Rightarrow> 'a Inspect option) \<Rightarrow> WorkspaceConfiguration
     \<Rightarrow> string \<Rightarrow> 'a \<Rightarrow> 'a" where
  "getGlobalValue inspect_T config key dflt =
     (let inspect = inspect_T config key
      in nullish (case inspect of None \<Rightarrow> None | Some i \<Rightarrow> globalValue i)
           (nullish (case inspect of None \<Rightarrow> None | Some i \<Rightarrow> defaultValue i) dflt))"

definition getGlobalSettings :: "Host \<Rightarrow> string \<Rightarrow> ISettings" where
  "getGlobalSettings host namespace =
     (let config = getConfiguration host namespace None
      in \<lparr> cwd = process_cwd host,
           workspace = process_cwd host,
           args = getGlobalValue inspect_strings config ''args'' [],
           path = getGlobalValue inspect_strings config ''path'' [],
           interpreter = [],
           importStrategy =
             getGlobalValue inspect_ImportStrategy config ''importStrategy'' fromEnvironment,
           run = getGlobalValue inspect_Run config ''run'' onType,
           codeAction =
             getGlobalValue inspect_CodeAction config ''codeAction''
               \<lparr> disableRuleComment = None, fixViolation = None \<rparr>,
           enable = getGlobalValue inspect_boolean config ''enable'' True,
           enableExperimentalFormatter =
             getGlobalValue inspect_boolean config ''enableExperimentalFormatter'' False,
           showNotifications = getGlobalValue inspect_string config ''showNotifications'' ''off'',
           organizeImports = getGlobalValue inspect_boolean config ''organizeImports'' True,
           fixAll = getGlobalValue inspect_boolean config ''fixAll'' True \<rparr>)"

definition settings :: "string \<Rightarrow> string list" where
  "settings namespace =
     [namespace @ ''.args'',
      namespace @ ''.codeAction'',
      namespace @ ''.enable'',
      namespace @ ''.fixAll'',
      namespace @ ''.importStrategy'',
      namespace @ ''.interpreter'',
      namespace @ ''.organizeImports'',
      namespace @ ''.path'',
      namespace @ ''.run'',
      namespace @ ''.showNotifications'',
      namespace @ ''.enableExperimentalFormatter'']"

definition checkIfConfigurationChanged :: "ConfigurationChangeEvent \<Rightarrow> string \<Rightarrow> bool" where
  "checkIfConfigurationChanged e namespace =
     list_ex (\<lambda>s. affectsConfiguration e s) (settings namespace)"

section \<open>One pass over a string\<close>



text \<open>
  \<open>keeps q tbl s\<close> follows the same loop and holds when every call of \<open>replace\<close> that
  finds its placeholder \<open>k\<close>, at position \<open>p\<close>, takes no character from an occurrence of
  \<open>q\<close>, the occurrence of \<open>q\<close> at \<open>p\<close> apart when the call is the one for \<open>q\<close> itself.
\<close>

fun keeps :: "string \<Rightarrow> (string \<times> string) list \<Rightarrow> string \<Rightarrow> bool" where
  "keeps q [] s = True"
| "keeps q ((k, v) # tbl) s =
     (case indexOf s k of
        None \<Rightarrow> keeps q tbl s
      | Some p \<Rightarrow>
          (\<forall>i \<in> set [0..<length s].
             startsWith (drop i s) q \<longrightarrow>
               i + length q \<le> p \<or> p + length k \<le> i \<or> (k = q \<and> i = p))
          \<and> keeps q tbl (String_replace s k v))"

text \<open>\<open>occurrences k s\<close>: the number of positions of \<open>s\<close> at which \<open>k\<close> occurs.\<close>

fun occurrences :: "string \<Rightarrow> string \<Rightarrow> nat" where
  "occurrences k [] = 0"
| "occurrences k (c # cs) = (if startsWith (c # cs) k then 1 else 0) + occurrences k cs"

section \<open>Example hosts\<close>

text \<open>
  Two workspace folders, a configuration store that has no value for any key and one that
  has a value for every key, and hosts built from them. The theorems below are
  instantiated at these.
\<close>

definition folderA :: WorkspaceFolder where
  "folderA = \<lparr> uri = \<lparr> fsPath = ''/w/a'', toString = ''file:///w/a'' \<rparr>, name = ''a'' \<rparr>"

definition folderB :: WorkspaceFolder where
  "folderB = \<lparr> uri = \<lparr> fsPath = ''/w/b'', toString = ''file:///w/b'' \<rparr>, name = ''b'' \<rparr>"

definition config_unset :: WorkspaceConfiguration where
  "config_unset =
     \<lparr> get_strings = (\<lambda>k. None), get_ImportStrategy = (\<lambda>k. None), get_Run = (\<lambda>k. None),
       get_CodeAction = (\<lambda>k. None), get_boolean = (\<lambda>k. None), get_string = (\<lambda>k. None),
       inspect_strings = (\<lambda>k. None), inspect_ImportStrategy = (\<lambda>k. None),
       inspect_Run = (\<lambda>k. None), inspect_CodeAction = (\<lambda>k. None),
       inspect_boolean = (\<lambda>k. None), inspect_string = (\<lambda>k. None) \<rparr>"

definition config_set :: WorkspaceConfiguration where
  "config_set =
     \<lparr> get_strings =
         (\<lambda>k. if k = ''args'' then Some [''--config=${workspaceFolder}/ruff.toml'']
              else if k = ''path'' then Some [''${userHome}/bin/ruff'']
              else if k = ''interpreter'' then Some [''${workspaceFolder:b}/venv/bin/python'']
              else None),
       get_ImportStrategy = (\<lambda>k. if k = ''importStrategy'' then Some useBundled else None),
       get_Run = (\<lambda>k. if k = ''run'' then Some onSave else None),
       get_CodeAction =
         (\<lambda>k. if k = ''codeAction''
              then Some \<lparr> disableRuleComment = Some \<lparr> enableOption = Some False \<rparr>,
                          fixViolation = None \<rparr>
              else None),
       get_boolean = (\<lambda>k. if k = ''enableExperimentalFormatter'' then Some True else Some False),
       get_string = (\<lambda>k. if k = ''showNotifications'' then Some ''always'' else None),
       inspect_strings =
         (\<lambda>k. if k = ''interpreter''
              then Some \<lparr> globalValue = Some [''/usr/bin/python3''], defaultValue = Some [] \<rparr>
              else if k = ''args''
              then Some \<lparr> globalValue = Some [''--preview''], defaultValue = Some [] \<rparr>
              else if k = ''path''
              then Some \<lparr> globalValue = None, defaultValue = Some [''ruff''] \<rparr>
              else None),
       inspect_ImportStrategy =
         (\<lambda>k. Some \<lparr> globalValue = Some useBundled, defaultValue = Some fromEnvironment \<rparr>),
       inspect_Run = (\<lambda>k. Some \<lparr> globalValue = None, defaultValue = Some onSave \<rparr>),
       inspect_CodeAction = (\<lambda>k. Some \<lparr> globalValue = None, defaultValue = None \<rparr>),
       inspect_boolean = (\<lambda>k. Some \<lparr> globalValue = Some False, defaultValue = Some True \<rparr>),
       inspect_string = (\<lambda>k. None) \<rparr>"

definition host_unset :: Host where
  "host_unset =
     \<lparr> env_HOME = Some ''/home/u'', env_USERPROFILE = None, process_cwd = ''/w'',
       getWorkspaceFolders = [folderA, folderB],
       getConfiguration = (\<lambda>namespace scope. config_unset),
       getInterpreterDetails = (\<lambda>u. \<lparr> interpreterPath = Some [''${cwd}/venv/bin/python''] \<rparr>) \<rparr>"

definition host_set :: Host where
  "host_set =
     \<lparr> env_HOME = Some ''/home/u'', env_USERPROFILE = None, process_cwd = ''/w'',
       getWorkspaceFolders = [folderA, folderB],
       getConfiguration = (\<lambda>namespace scope. config_set),
       getInterpreterDetails = (\<lambda>u. \<lparr> interpreterPath = None \<rparr>) \<rparr>"

text \<open>Change events that affect exactly one section.\<close>

definition event_path :: ConfigurationChangeEvent where
  "event_path = \<lparr> affectsConfiguration = (\<lambda>s. s = ''ruff.path'') \<rparr>"

definition event_other :: ConfigurationChangeEvent where
  "event_other = \<lparr> affectsConfiguration = (\<lambda>s. s = ''ruff.lint.select'') \<rparr>"





definition folderOdd :: WorkspaceFolder where
  "folderOdd = \<lparr> uri = \<lparr> fsPath = ''/w/odd'', toString = ''file:///w/odd'' \<rparr>,
     name = ''${cwd}'' \<rparr>"

definition host_odd :: Host where
  "host_odd =
     \<lparr> env_HOME = Some ''/home/u'', env_USERPROFILE = None, process_cwd = ''/w'',
       getWorkspaceFolders = [folderOdd],
       getConfiguration = (\<lambda>namespace scope. config_unset),
       getInterpreterDetails = (\<lambda>u. \<lparr> interpreterPath = None \<rparr>) \<rparr>"

definition folderBordered :: WorkspaceFolder where
  "folderBordered = \<lparr> uri = \<lparr> fsPath = ''/w/x'', toString = ''file:///w/x'' \<rparr>,
     name = ''}${workspaceFolder:'' \<rparr>"

definition host_bordered :: Host where
  "host_bordered =
     \<lparr> env_HOME = Some ''/home/u'', env_USERPROFILE = None, process_cwd = ''/w'',
       getWorkspaceFolders = [folderBordered],
       getConfiguration = (\<lambda>namespace scope. config_unset),
       getInterpreterDetails = (\<lambda>u. \<lparr> interpreterPath = None \<rparr>) \<rparr>"

section \<open>Change detection\<close>

lemma not_list_ex: "(\<forall>s. P s \<longrightarrow> s \<notin> set xs) \<Longrightarrow> \<not> list_ex P xs"
  by (auto simp add: list_ex_iff)

text \<open>
  Claim C2. \<open>checkIfConfigurationChanged\<close> is true exactly when the event affects one of
  the eleven sections \<open>namespace.args\<close>, \<open>namespace.codeAction\<close>, \<open>namespace.enable\<close>,
  \<open>namespace.fixAll\<close>, \<open>namespace.importStrategy\<close>, \<open>namespace.interpreter\<close>,
  \<open>namespace.organizeImports\<close>, \<open>namespace.path\<close>, \<open>namespace.run\<close>,
  \<open>namespace.showNotifications\<close> and \<open>namespace.enableExperimentalFormatter\<close>; an event
  that affects only sections outside this list gives false.
\<close>

theorem checkIfConfigurationChanged_iff:
  "(checkIfConfigurationChanged e namespace \<longleftrightarrow>
      affectsConfiguration e (namespace @ ''.args'')
      \<or> affectsConfiguration e (namespace @ ''.codeAction'')
      \<or> affectsConfiguration e (namespace @ ''.enable'')
      \<or> affectsConfiguration e (namespace @ ''.fixAll'')
      \<or> affectsConfiguration e (namespace @ ''.importStrategy'')
      \<or> affectsConfiguration e (namespace @ ''.interpreter'')
      \<or> affectsConfiguration e (namespace @ ''.organizeImports'')
      \<or> affectsConfiguration e (namespace @ ''.path'')
      \<or> affectsConfiguration e (namespace @ ''.run'')
      \<or> affectsConfiguration e (namespace @ ''.showNotifications'')
      \<or> affectsConfiguration e (namespace @ ''.enableExperimentalFormatter''))
   \<and> ((\<forall>s. affectsConfiguration e s \<longrightarrow>
          s \<notin> set [namespace @ ''.args'', namespace @ ''.codeAction'', namespace @ ''.enable'',
               namespace @ ''.fixAll'', namespace @ ''.importStrategy'',
               namespace @ ''.interpreter'', namespace @ ''.organizeImports'',
               namespace @ ''.path'', namespace @ ''.run'', namespace @ ''.showNotifications'',
               namespace @ ''.enableExperimentalFormatter''])
       \<longrightarrow> \<not> checkIfConfigurationChanged e namespace)"
proof (intro conjI impI)
  show "checkIfConfigurationChanged e namespace \<longleftrightarrow>
      affectsConfiguration e (namespace @ ''.args'')
      \<or> affectsConfiguration e (namespace @ ''.codeAction'')
      \<or> affectsConfiguration e (namespace @ ''.enable'')
      \<or> affectsConfiguration e (namespace @ ''.fixAll'')
      \<or> affectsConfiguration e (namespace @ ''.importStrategy'')
      \<or> affectsConfiguration e (namespace @ ''.interpreter'')
      \<or> affectsConfiguration e (namespace @ ''.organizeImports'')
      \<or> affectsConfiguration e (namespace @ ''.path'')
      \<or> affectsConfiguration e (namespace @ ''.run'')
      \<or> affectsConfiguration e (namespace @ ''.showNotifications'')
      \<or> affectsConfiguration e (namespace @ ''.enableExperimentalFormatter'')"
    unfolding checkIfConfigurationChanged_def settings_def
    by (simp only: list_ex_Nil_iff list_ex_Cons_iff simp_thms)
next
  assume "\<forall>s. affectsConfiguration e s \<longrightarrow>
          s \<notin> set [namespace @ ''.args'', namespace @ ''.codeAction'', namespace @ ''.enable'',
               namespace @ ''.fixAll'', namespace @ ''.importStrategy'',
               namespace @ ''.interpreter'', namespace @ ''.organizeImports'',
               namespace @ ''.path'', namespace @ ''.run'', namespace @ ''.showNotifications'',
               namespace @ ''.enableExperimentalFormatter'']"
  then show "\<not> checkIfConfigurationChanged e namespace"
    unfolding checkIfConfigurationChanged_def settings_def by (rule not_list_ex)
qed

theorem checkIfConfigurationChanged_iff_witness:
  "checkIfConfigurationChanged event_path ''ruff''
   \<and> \<not> checkIfConfigurationChanged event_other ''ruff''"
proof
  show "checkIfConfigurationChanged event_path ''ruff''"
    using checkIfConfigurationChanged_iff [of event_path "''ruff''"] by (simp add: event_path_def)
next
  have "\<forall>s. affectsConfiguration event_other s \<longrightarrow>
          s \<notin> set [''ruff'' @ ''.args'', ''ruff'' @ ''.codeAction'', ''ruff'' @ ''.enable'',
               ''ruff'' @ ''.fixAll'', ''ruff'' @ ''.importStrategy'',
               ''ruff'' @ ''.interpreter'', ''ruff'' @ ''.organizeImports'',
               ''ruff'' @ ''.path'', ''ruff'' @ ''.run'', ''ruff'' @ ''.showNotifications'',
               ''ruff'' @ ''.enableExperimentalFormatter'']"
    by (simp add: event_other_def)
  then show "\<not> checkIfConfigurationChanged event_other ''ruff''"
    by (rule checkIfConfigurationChanged_iff [of event_other "''ruff''", THEN conjunct2, THEN mp])
qed

section \<open>Settings of a workspace folder\<close>

lemma resolveVariables_Nil: "resolveVariables host [] folder = []"
  by (simp add: resolveVariables_def)

text \<open>
  Claim C3. Where the configuration of the workspace folder has no value for a key,
  \<open>getWorkspaceSettings\<close> fills the field with its default: \<open>args\<close> and \<open>path\<close> are
  empty, \<open>importStrategy\<close> is \<open>fromEnvironment\<close>, \<open>run\<close> is \<open>onType\<close>, \<open>codeAction\<close> is
  the empty object, \<open>enable\<close>, \<open>organizeImports\<close> and \<open>fixAll\<close> are true,
  \<open>showNotifications\<close> is \<open>off\<close> and \<open>enableExperimentalFormatter\<close> is false.
\<close>

theorem getWorkspaceSettings_defaults:
  assumes "config = getConfiguration host namespace (Some (ScopeUri (uri w)))"
    and "r = getWorkspaceSettings host namespace w"
  shows "(get_strings config ''args'' = None \<longrightarrow> args r = [])
    \<and> (get_strings config ''path'' = None \<longrightarrow> path r = [])
    \<and> (get_ImportStrategy config ''importStrategy'' = None \<longrightarrow> importStrategy r = fromEnvironment)
    \<and> (get_Run config ''run'' = None \<longrightarrow> run r = onType)
    \<and> (get_CodeAction config ''codeAction'' = None \<longrightarrow>
          codeAction r = \<lparr> disableRuleComment = None, fixViolation = None \<rparr>)
    \<and> (get_boolean config ''enable'' = None \<longrightarrow> enable r = True)
    \<and> (get_boolean config ''organizeImports'' = None \<longrightarrow> organizeImports r = True)
    \<and> (get_boolean config ''fixAll'' = None \<longrightarrow> fixAll r = True)
    \<and> (get_string config ''showNotifications'' = None \<longrightarrow> showNotifications r = ''off'')
    \<and> (get_boolean config ''enableExperimentalFormatter'' = None \<longrightarrow>
          enableExperimentalFormatter r = False)"
  using assms
  by (simp add: getWorkspaceSettings_def Let_def nullish_def resolveVariables_Nil)

theorem getWorkspaceSettings_defaults_witness:
  "get_strings config_unset ''args'' = None
   \<and> get_boolean config_unset ''enableExperimentalFormatter'' = None
   \<and> args (getWorkspaceSettings host_unset ''ruff'' folderA) = []
   \<and> path (getWorkspaceSettings host_unset ''ruff'' folderA) = []
   \<and> importStrategy (getWorkspaceSettings host_unset ''ruff'' folderA) = fromEnvironment
   \<and> run (getWorkspaceSettings host_unset ''ruff'' folderA) = onType
   \<and> codeAction (getWorkspaceSettings host_unset ''ruff'' folderA)
       = \<lparr> disableRuleComment = None, fixViolation = None \<rparr>
   \<and> enable (getWorkspaceSettings host_unset ''ruff'' folderA)
   \<and> organizeImports (getWorkspaceSettings host_unset ''ruff'' folderA)
   \<and> fixAll (getWorkspaceSettings host_unset ''ruff'' folderA)
   \<and> showNotifications (getWorkspaceSettings host_unset ''ruff'' folderA) = ''off''
   \<and> \<not> enableExperimentalFormatter (getWorkspaceSettings host_unset ''ruff'' folderA)"
  using getWorkspaceSettings_defaults
    [of config_unset host_unset "''ruff''" folderA "getWorkspaceSettings host_unset ''ruff'' folderA"]
  by (simp add: host_unset_def config_unset_def)

text \<open>
  Claim C6. When the \<open>interpreter\<close> setting of the workspace folder is absent or the
  empty list, the interpreter is the path of the interpreter details resolved for the
  folder's URI, or the empty list when the details have no path; otherwise it is the
  configured list. In both cases the list goes through \<open>resolveVariables\<close> before it is
  stored.
\<close>

theorem getWorkspaceSettings_interpreter:
  assumes "configured =
      get_strings (getConfiguration host namespace (Some (ScopeWorkspaceFolder w))) ''interpreter''"
  shows "((configured = None \<or> configured = Some []) \<longrightarrow>
        interpreter (getWorkspaceSettings host namespace w) =
          resolveVariables host
            (case interpreterPath (getInterpreterDetails host (uri w)) of
               None \<Rightarrow> [] | Some p \<Rightarrow> p)
            (Some w))
    \<and> (\<forall>xs. configured = Some xs \<and> xs \<noteq> [] \<longrightarrow>
        interpreter (getWorkspaceSettings host namespace w) = resolveVariables host xs (Some w))"
  using assms
  by (auto simp add: getWorkspaceSettings_def getInterpreterFromSetting_def Let_def nullish_def
      split: option.splits)

theorem getWorkspaceSettings_interpreter_witness:
  "get_strings (getConfiguration host_unset ''ruff'' (Some (ScopeWorkspaceFolder folderA)))
       ''interpreter'' = None
   \<and> interpreter (getWorkspaceSettings host_unset ''ruff'' folderA) = [''/w/venv/bin/python'']
   \<and> get_strings (getConfiguration host_set ''ruff'' (Some (ScopeWorkspaceFolder folderA)))
       ''interpreter'' = Some [''${workspaceFolder:b}/venv/bin/python'']
   \<and> interpreter (getWorkspaceSettings host_set ''ruff'' folderA) = [''/w/b/venv/bin/python'']"
proof -
  have unset: "get_strings (getConfiguration host_unset ''ruff'' (Some (ScopeWorkspaceFolder folderA)))
       ''interpreter'' = None"
    by (simp add: host_unset_def config_unset_def)
  have isset: "get_strings (getConfiguration host_set ''ruff'' (Some (ScopeWorkspaceFolder folderA)))
       ''interpreter'' = Some [''${workspaceFolder:b}/venv/bin/python'']"
    by (simp add: host_set_def config_set_def)
  have r1: "resolveVariables host_unset [''${cwd}/venv/bin/python''] (Some folderA)
      = [''/w/venv/bin/python'']"
    by code_simp
  have r2: "resolveVariables host_set [''${workspaceFolder:b}/venv/bin/python''] (Some folderA)
      = [''/w/b/venv/bin/python'']"
    by code_simp
  have d: "interpreterPath (getInterpreterDetails host_unset (uri folderA))
      = Some [''${cwd}/venv/bin/python'']"
    by (simp add: host_unset_def)
  from getWorkspaceSettings_interpreter [OF refl, of host_unset "''ruff''" folderA] unset d r1
  have "interpreter (getWorkspaceSettings host_unset ''ruff'' folderA) = [''/w/venv/bin/python'']"
    by simp
  moreover from getWorkspaceSettings_interpreter [OF refl, of host_set "''ruff''" folderA] isset r2
  have "interpreter (getWorkspaceSettings host_set ''ruff'' folderA) = [''/w/b/venv/bin/python'']"
    by simp
  ultimately show ?thesis using unset isset by simp
qed

text \<open>
  Claim C7. In the record of a workspace folder, \<open>cwd\<close> is the folder's file-system path
  and \<open>workspace\<close> is its URI as a string; in the global record both are the working
  directory of the process.
\<close>

theorem cwd_and_workspace:
  "cwd (getWorkspaceSettings host namespace w) = fsPath (uri w)
   \<and> workspace (getWorkspaceSettings host namespace w) = toString (uri w)
   \<and> cwd (getGlobalSettings host namespace) = process_cwd host
   \<and> workspace (getGlobalSettings host namespace) = process_cwd host"
  by (simp add: getWorkspaceSettings_def getGlobalSettings_def Let_def)

section \<open>All workspace folders\<close>

text \<open>
  Claim C5. \<open>getExtensionSettings\<close> returns one record for each open workspace folder, in
  the order of the folders, and each record is the result of \<open>getWorkspaceSettings\<close> for
  its folder.
\<close>

theorem getExtensionSettings_per_folder:
  "length (getExtensionSettings host namespace) = length (getWorkspaceFolders host)
   \<and> (\<forall>i < length (getWorkspaceFolders host).
        getExtensionSettings host namespace ! i
          = getWorkspaceSettings host namespace (getWorkspaceFolders host ! i))"
  by (simp add: getExtensionSettings_def)

theorem getExtensionSettings_per_folder_witness:
  "length (getExtensionSettings host_set ''ruff'') = 2
   \<and> getExtensionSettings host_set ''ruff'' ! 0 = getWorkspaceSettings host_set ''ruff'' folderA
   \<and> getExtensionSettings host_set ''ruff'' ! 1 = getWorkspaceSettings host_set ''ruff'' folderB"
proof -
  have f: "getWorkspaceFolders host_set = [folderA, folderB]"
    by (simp add: host_set_def)
  note t = getExtensionSettings_per_folder [of host_set "''ruff''"]
  have "length (getExtensionSettings host_set ''ruff'') = 2"
    using t f by simp
  moreover have "getExtensionSettings host_set ''ruff'' ! 0
      = getWorkspaceSettings host_set ''ruff'' folderA"
    using t [THEN conjunct2, rule_format, of 0] f by simp
  moreover have "getExtensionSettings host_set ''ruff'' ! 1
      = getWorkspaceSettings host_set ''ruff'' folderB"
    using t [THEN conjunct2, rule_format, of 1] f by simp
  ultimately show ?thesis by (intro conjI)
qed

section \<open>Global settings\<close>

text \<open>
  Claim C10. The \<open>interpreter\<close> field of the global settings record is the empty list,
  whatever the configuration holds for the key \<open>interpreter\<close>.
\<close>

theorem getGlobalSettings_interpreter: "interpreter (getGlobalSettings host namespace) = []"
  by (simp add: getGlobalSettings_def Let_def)

text \<open>
  Claim C4, as the specification states it, has every configurable field of the global
  record built by \<open>getGlobalValue\<close>. The field \<open>interpreter\<close> is not: in \<open>host_set\<close> the
  global value of the key \<open>interpreter\<close> is \<open>/usr/bin/python3\<close>, which \<open>getGlobalValue\<close>
  returns, and the field of the record is empty.
\<close>

theorem getGlobalSettings_interpreter_not_chain:
  "getGlobalValue inspect_strings (getConfiguration host_set ''ruff'' None) ''interpreter'' []
     = [''/usr/bin/python3'']
   \<and> interpreter (getGlobalSettings host_set ''ruff'') = []"
  by (simp add: getGlobalSettings_def getGlobalValue_def nullish_def Let_def host_set_def
      config_set_def)

text \<open>
  Claim C4, amended. \<open>getGlobalValue\<close> returns the inspected global value when it is
  present, otherwise the inspected default value when that is present, otherwise the
  default value it is given. \<open>getGlobalSettings\<close> builds the fields \<open>args\<close>, \<open>path\<close>,
  \<open>importStrategy\<close>, \<open>run\<close>, \<open>codeAction\<close>, \<open>enable\<close>, \<open>organizeImports\<close>, \<open>fixAll\<close>,
  \<open>showNotifications\<close> and \<open>enableExperimentalFormatter\<close> through this chain, each from
  the key of its name and with the default of the workspace record.
\<close>

theorem getGlobalValue_chain:
  "getGlobalValue inspect_T config key dflt =
     (case inspect_T config key of
        None \<Rightarrow> dflt
      | Some i \<Rightarrow>
          (case globalValue i of
             Some g \<Rightarrow> g
           | None \<Rightarrow> (case defaultValue i of Some d \<Rightarrow> d | None \<Rightarrow> dflt)))
   \<and> args (getGlobalSettings host namespace)
       = getGlobalValue inspect_strings (getConfiguration host namespace None) ''args'' []
   \<and> path (getGlobalSettings host namespace)
       = getGlobalValue inspect_strings (getConfiguration host namespace None) ''path'' []
   \<and> importStrategy (getGlobalSettings host namespace)
       = getGlobalValue inspect_ImportStrategy (getConfiguration host namespace None)
           ''importStrategy'' fromEnvironment
   \<and> run (getGlobalSettings host namespace)
       = getGlobalValue inspect_Run (getConfiguration host namespace None) ''run'' onType
   \<and> codeAction (getGlobalSettings host namespace)
       = getGlobalValue inspect_CodeAction (getConfiguration host namespace None) ''codeAction''
           \<lparr> disableRuleComment = None, fixViolation = None \<rparr>
   \<and> enable (getGlobalSettings host namespace)
       = getGlobalValue inspect_boolean (getConfiguration host namespace None) ''enable'' True
   \<and> organizeImports (getGlobalSettings host namespace)
       = getGlobalValue inspect_boolean (getConfiguration host namespace None)
           ''organizeImports'' True
   \<and> fixAll (getGlobalSettings host namespace)
       = getGlobalValue inspect_boolean (getConfiguration host namespace None) ''fixAll'' True
   \<and> showNotifications (getGlobalSettings host namespace)
       = getGlobalValue inspect_string (getConfiguration host namespace None)
           ''showNotifications'' ''off''
   \<and> enableExperimentalFormatter (getGlobalSettings host namespace)
       = getGlobalValue inspect_boolean (getConfiguration host namespace None)
           ''enableExperimentalFormatter'' False"
proof -
  have chain: "getGlobalValue inspect_T config key dflt =
     (case inspect_T config key of
        None \<Rightarrow> dflt
      | Some i \<Rightarrow>
          (case globalValue i of
             Some g \<Rightarrow> g
           | None \<Rightarrow> (case defaultValue i of Some d \<Rightarrow> d | None \<Rightarrow> dflt)))"
    by (simp add: getGlobalValue_def nullish_def Let_def split: option.splits)
  have fields: "getGlobalSettings host namespace =
      \<lparr> cwd = process_cwd host, workspace = process_cwd host,
        args = getGlobalValue inspect_strings (getConfiguration host namespace None) ''args'' [],
        path = getGlobalValue inspect_strings (getConfiguration host namespace None) ''path'' [],
        interpreter = [],
        importStrategy = getGlobalValue inspect_ImportStrategy
          (getConfiguration host namespace None) ''importStrategy'' fromEnvironment,
        run = getGlobalValue inspect_Run (getConfiguration host namespace None) ''run'' onType,
        codeAction = getGlobalValue inspect_CodeAction (getConfiguration host namespace None)
          ''codeAction'' \<lparr> disableRuleComment = None, fixViolation = None \<rparr>,
        enable = getGlobalValue inspect_boolean (getConfiguration host namespace None)
          ''enable'' True,
        enableExperimentalFormatter = getGlobalValue inspect_boolean
          (getConfiguration host namespace None) ''enableExperimentalFormatter'' False,
        showNotifications = getGlobalValue inspect_string (getConfiguration host namespace None)
          ''showNotifications'' ''off'',
        organizeImports = getGlobalValue inspect_boolean (getConfiguration host namespace None)
          ''organizeImports'' True,
        fixAll = getGlobalValue inspect_boolean (getConfiguration host namespace None)
          ''fixAll'' True \<rparr>"
    by (simp add: getGlobalSettings_def Let_def)
  show ?thesis
    unfolding fields using chain by simp
qed

section \<open>String replacement\<close>

lemma startsWith_prefix: "startsWith s k \<longleftrightarrow> prefix k s"
  by (induction s k rule: startsWith.induct) auto

lemma indexOf_None_iff: "indexOf s k = None \<longleftrightarrow> \<not> sublist k s"
proof (induction s)
  case Nil
  then show ?case by simp
next
  case (Cons c s)
  show ?case
    by (simp add: Cons startsWith_prefix sublist_Cons_right)
qed

lemma String_replace_absent: "indexOf s k = None \<Longrightarrow> String_replace s k v = s"
  by (simp add: String_replace_def)

lemma indexOf_here: "indexOf (k @ r) k = Some 0"
proof -
  have "startsWith (k @ r) k" by (simp add: startsWith_prefix)
  then show ?thesis by (cases "k @ r") auto
qed

lemma indexOf_bound: "\<exists>p \<le> length a. indexOf (a @ k @ r) k = Some p"
proof (induction a)
  case Nil
  then show ?case by (simp add: indexOf_here)
next
  case (Cons c a)
  then obtain p where "p \<le> length a" "indexOf (a @ k @ r) k = Some p" by blast
  then show ?case by (cases "startsWith (c # a @ k @ r) k") auto
qed

lemma String_replace_keeps_rest: "suffix r (String_replace (a @ k @ r) k v)"
proof -
  obtain p where p: "p \<le> length a" "indexOf (a @ k @ r) k = Some p"
    using indexOf_bound by blast
  have "drop (length a - p) (drop (p + length k) (a @ k @ r)) = r"
    using p(1) by simp
  then have "suffix r (drop (p + length k) (a @ k @ r))"
    by (metis suffix_drop)
  then show ?thesis
    using p(2) by (simp add: String_replace_def suffix_appendI)
qed

lemma substitute_absent:
  "\<forall>k \<in> fst ` set tbl. \<not> sublist k s \<Longrightarrow> substitute tbl s = s"
proof (induction tbl)
  case Nil
  then show ?case by (simp add: substitute_def)
next
  case (Cons e tbl)
  obtain K V where e: "e = (K, V)" by (cases e)
  with Cons.prems have "String_replace s K V = s"
    by (simp add: String_replace_absent indexOf_None_iff)
  with Cons e show ?case by (simp add: substitute_def)
qed

subsection \<open>Counting occurrences\<close>

lemma occurrences_append: "occurrences k x + occurrences k y \<le> occurrences k (x @ y)"
proof (induction x)
  case Nil
  then show ?case by simp
next
  case (Cons c x)
  have "startsWith (c # x) k \<Longrightarrow> startsWith (c # x @ y) k"
    by (metis append_Cons prefix_prefix startsWith_prefix)
  with Cons show ?case by auto
qed

lemma indexOf_Some:
  "indexOf s k = Some p \<Longrightarrow> s = take p s @ k @ drop (p + length k) s"
proof (induction s arbitrary: p)
  case Nil
  then show ?case by (simp split: if_splits)
next
  case (Cons c s)
  show ?case
  proof (cases "startsWith (c # s) k")
    case True
    with Cons.prems have "p = 0" by simp
    moreover from True obtain r where "c # s = k @ r"
      by (auto simp add: startsWith_prefix prefix_def)
    ultimately show ?thesis by simp
  next
    case False
    with Cons.prems obtain q where "indexOf s k = Some q" "p = Suc q" by auto
    with Cons.IH [of q] show ?thesis by simp
  qed
qed

subsection \<open>The table of substitutions\<close>


lemma keys_map_set: "fst ` set (map_set m k v) = insert k (fst ` set m)"
  by (induction m k v rule: map_set.induct) auto

lemma distinct_map_set: "distinct (map fst m) \<Longrightarrow> distinct (map fst (map_set m k v))"
proof (induction m k v rule: map_set.induct)
  case (1 k v)
  then show ?case by simp
next
  case (2 k' v' m k v)
  then show ?case using keys_map_set [of m k v] by auto
qed

lemma keys_foldl_map_set:
  "fst ` set (foldl (\<lambda>m w. map_set m (f w) (g w)) m ws) = fst ` set m \<union> f ` set ws"
  by (induction ws arbitrary: m) (auto simp add: keys_map_set)

lemma distinct_foldl_map_set:
  "distinct (map fst m) \<Longrightarrow> distinct (map fst (foldl (\<lambda>m w. map_set m (f w) (g w)) m ws))"
  by (induction ws arbitrary: m) (auto simp add: distinct_map_set)


lemma home_table:
  "(case home of None \<Rightarrow> [] | Some h \<Rightarrow> if truthy (Some h) then map_set [] k h else [])
     = (if truthy home then [(k, the home)] else [])"
  by (cases home) simp_all

lemma substitutions_distinct: "distinct (map fst (substitutions host folder))"
  by (simp add: substitutions_def Let_def home_table distinct_foldl_map_set distinct_map_set
      split: option.splits)

lemma substitutions_keys:
  "fst ` set (substitutions host folder) =
     (if truthy (logical_or (env_HOME host) (env_USERPROFILE host)) then {''${userHome}''} else {})
     \<union> (case folder of None \<Rightarrow> {} | Some w \<Rightarrow> {''${workspaceFolder}''})
     \<union> {''${cwd}''}
     \<union> (\<lambda>w. ''${workspaceFolder:'' @ name w @ ''}'') ` set (getWorkspaceFolders host)"
  unfolding substitutions_def Let_def home_table keys_foldl_map_set keys_map_set
  by (cases folder; cases "truthy (logical_or (env_HOME host) (env_USERPROFILE host))")
     (simp_all add: keys_map_set insert_commute)









lemma substitutions_nonempty: "[] \<notin> fst ` set (substitutions host folder)"
  unfolding substitutions_keys by (auto split: option.splits)

subsection \<open>The loop and the single pass\<close>






lemma indexOf_length: "indexOf s K = Some p \<Longrightarrow> p + length K \<le> length s"
proof (induction s arbitrary: p)
  case Nil
  then show ?case by (simp split: if_splits)
next
  case (Cons c s)
  show ?case
  proof (cases "startsWith (c # s) K")
    case True
    then have "length K \<le> length (c # s)"
      by (simp only: startsWith_prefix prefix_length_le)
    with Cons.prems True show ?thesis by simp
  next
    case False
    with Cons.prems obtain q where "indexOf s K = Some q" "p = Suc q" by auto
    with Cons.IH [of q] show ?thesis by simp
  qed
qed



lemma startsWith_short:
  assumes "startsWith (x @ r) k" "length k \<le> length x"
  shows "startsWith (x @ r') k"
proof -
  from assms have "prefix k x"
    by (metis prefix_length_prefix prefixI startsWith_prefix)
  then show ?thesis by (metis prefix_prefix startsWith_prefix)
qed



subsection \<open>Occurrences that the loop leaves\<close>

lemma occurrences_inside:
  assumes "\<forall>j < length K. 0 < j \<or> K \<noteq> P \<longrightarrow> \<not> startsWith (drop j K @ r) P"
  shows "j \<le> length K \<Longrightarrow> 0 < j \<or> K \<noteq> P \<Longrightarrow>
    occurrences P (drop j K @ r) = occurrences P r"
proof (induction "length K - j" arbitrary: j)
  case 0
  then show ?case by simp
next
  case (Suc n)
  then have j: "j < length K" by simp
  with assms Suc.prems have "\<not> startsWith (drop j K @ r) P" by blast
  moreover have "drop j K = K ! j # drop (Suc j) K"
    using j by (simp add: Cons_nth_drop_Suc)
  moreover have "occurrences P (drop (Suc j) K @ r) = occurrences P r"
    using Suc.hyps(2) j by (intro Suc.hyps(1)) simp_all
  ultimately show ?case by simp
qed

lemma occurrences_around:
  assumes P: "P \<noteq> []"
  shows "\<forall>i. startsWith (drop i (x @ K @ r)) P \<longrightarrow>
      i + length P \<le> length x \<or> length x + length K \<le> i \<or> (K = P \<and> i = length x) \<Longrightarrow>
    occurrences P (x @ K @ r)
      \<le> occurrences P x + (if K = P then 1 else 0) + occurrences P r"
proof (induction x)
  case Nil
  have no: "\<forall>j < length K. 0 < j \<or> K \<noteq> P \<longrightarrow> \<not> startsWith (drop j K @ r) P"
  proof (intro allI impI)
    fix j assume j: "j < length K" and c: "0 < j \<or> K \<noteq> P"
    show "\<not> startsWith (drop j K @ r) P"
    proof
      assume "startsWith (drop j K @ r) P"
      with j have "startsWith (drop j ([] @ K @ r)) P" by simp
      with Nil have "j + length P \<le> 0 \<or> length K \<le> j \<or> (K = P \<and> j = 0)" by fastforce
      with j c P show False by auto
    qed
  qed
  show ?case
  proof (cases "K = P")
    case False
    with occurrences_inside [OF no, of 0] show ?thesis by simp
  next
    case True
    from P obtain c cs where Pc: "P = c # cs" by (cases P) auto
    have "occurrences P (drop 1 K @ r) = occurrences P r"
      using P True by (intro occurrences_inside [OF no]) (cases P, simp_all)
    with True Pc show ?thesis by (simp add: startsWith_prefix)
  qed
next
  case (Cons c x)
  have "startsWith (c # x) P" if m: "startsWith ((c # x) @ K @ r) P"
  proof -
    from m have "startsWith (drop 0 ((c # x) @ K @ r)) P" by simp
    with Cons.prems have "0 + length P \<le> length (c # x) \<or> length (c # x) + length K \<le> 0
        \<or> (K = P \<and> 0 = length (c # x))" by blast
    then have "length P \<le> length (c # x)" by simp
    with m have "startsWith ((c # x) @ []) P" by (rule startsWith_short)
    then show ?thesis by simp
  qed
  moreover have "occurrences P (x @ K @ r)
      \<le> occurrences P x + (if K = P then 1 else 0) + occurrences P r"
  proof (rule Cons.IH, intro allI impI)
    fix i assume "startsWith (drop i (x @ K @ r)) P"
    then have "startsWith (drop (Suc i) ((c # x) @ K @ r)) P" by simp
    with Cons.prems have "Suc i + length P \<le> length (c # x) \<or> length (c # x) + length K \<le> Suc i
        \<or> (K = P \<and> Suc i = length (c # x))" by blast
    then show "i + length P \<le> length x \<or> length x + length K \<le> i \<or> (K = P \<and> i = length x)"
      by simp
  qed
  ultimately show ?case by auto
qed

lemma occurrences_String_replace:
  assumes P: "P \<noteq> []" and idx: "indexOf s K = Some p"
    and h: "\<forall>i. startsWith (drop i s) P \<longrightarrow>
      i + length P \<le> p \<or> p + length K \<le> i \<or> (K = P \<and> i = p)"
  shows "occurrences P s \<le> occurrences P (String_replace s K V) + (if K = P then 1 else 0)"
proof -
  define x where "x = take p s"
  define r where "r = drop (p + length K) s"
  define X where "X = getSubstitution K x r V"
  have s: "s = x @ K @ r" unfolding x_def r_def using idx by (rule indexOf_Some)
  have len: "length x = p" unfolding x_def using indexOf_length [OF idx] by simp
  have h': "\<forall>i. startsWith (drop i (x @ K @ r)) P \<longrightarrow>
      i + length P \<le> length x \<or> length x + length K \<le> i \<or> (K = P \<and> i = length x)"
    using h unfolding s [symmetric] len .
  have "occurrences P (x @ K @ r)
      \<le> occurrences P x + (if K = P then 1 else 0) + occurrences P r"
    using P h' by (rule occurrences_around)
  moreover have "occurrences P x + occurrences P r \<le> occurrences P (x @ X @ r)"
    using occurrences_append [of P x "X @ r"] occurrences_append [of P X r] by linarith
  moreover have "String_replace s K V = x @ X @ r"
    using idx by (simp add: String_replace_def x_def r_def X_def)
  ultimately show ?thesis using s by simp
qed

lemma occurrences_keeps:
  assumes P: "P \<noteq> []"
  shows "distinct (map fst tbl) \<Longrightarrow> keeps P tbl s \<Longrightarrow>
    occurrences P s \<le> occurrences P (substitute tbl s) + (if P \<in> fst ` set tbl then 1 else 0)"
proof (induction tbl arbitrary: s)
  case Nil
  then show ?case by (simp add: substitute_def)
next
  case (Cons e tbl)
  obtain K V where e: "e = (K, V)" by (cases e)
  from Cons.prems e have d: "distinct (map fst tbl)" and nk: "K \<notin> fst ` set tbl"
    by auto
  have k: "keeps P ((K, V) # tbl) s" using Cons.prems(2) e by simp
  have 3: "substitute ((K, V) # tbl) s = substitute tbl (String_replace s K V)"
    by (simp add: substitute_def)
  show ?case
  proof (cases "indexOf s K")
    case None
    then have "String_replace s K V = s" by (rule String_replace_absent)
    moreover from k None have "keeps P tbl s" by simp
    with d have "occurrences P s \<le> occurrences P (substitute tbl s)
        + (if P \<in> fst ` set tbl then 1 else 0)" by (rule Cons.IH)
    ultimately show ?thesis unfolding e using 3 by (auto split: if_splits)
  next
    case (Some p)
    note k' = k [unfolded keeps.simps Some option.case]
    have hb: "\<forall>i \<in> set [0..<length s]. startsWith (drop i s) P \<longrightarrow>
        i + length P \<le> p \<or> p + length K \<le> i \<or> (K = P \<and> i = p)"
      using k' by (rule conjunct1)
    have kt: "keeps P tbl (String_replace s K V)"
      using k' by (rule conjunct2)
    have h: "\<forall>i. startsWith (drop i s) P \<longrightarrow>
        i + length P \<le> p \<or> p + length K \<le> i \<or> (K = P \<and> i = p)"
    proof (intro allI impI)
      fix i assume m: "startsWith (drop i s) P"
      have "i < length s"
      proof (rule ccontr)
        assume "\<not> i < length s"
        then have "drop i s = []" by simp
        with m P show False by (cases P) simp_all
      qed
      then have "i \<in> set [0..<length s]" by simp
      with hb m show "i + length P \<le> p \<or> p + length K \<le> i \<or> (K = P \<and> i = p)" by blast
    qed
    have 1: "occurrences P s \<le> occurrences P (String_replace s K V) + (if K = P then 1 else 0)"
      using P Some h by (rule occurrences_String_replace)
    have 2: "occurrences P (String_replace s K V)
        \<le> occurrences P (substitute tbl (String_replace s K V))
          + (if P \<in> fst ` set tbl then 1 else 0)"
      using d kt by (rule Cons.IH)
    show ?thesis
    proof (cases "K = P")
      case True
      with nk have "P \<notin> fst ` set tbl" by simp
      with 1 2 True show ?thesis unfolding e using 3 by simp
    next
      case False
      with 1 2 show ?thesis unfolding e using 3 by auto
    qed
  qed
qed

section \<open>Variable substitution\<close>




text \<open>
  Claim C8, as the specification states it, has every string with a placeholder twice keep
  the second occurrence. Two inputs where no occurrence is left. With an open folder named
  \<open>${cwd}\<close>, the string \<open>${cwd}:${workspaceFolder:${cwd}}\<close> has \<open>${cwd}\<close> twice; the first
  occurrence is replaced by the call for \<open>${cwd}\<close>, the second one goes with the
  placeholder of the folder around it, and the result \<open>/w:/w/odd\<close> has none. With an open
  folder named \<open>}${workspaceFolder:\<close>, the placeholder of the folder occurs twice in
  \<open>${workspaceFolder:}${workspaceFolder:}${workspaceFolder:}\<close>, the two occurrences
  sharing the middle; replacing the first takes the second with it.
\<close>

theorem resolveVariables_first_occurrence_counterexample:
  "map name (getWorkspaceFolders host_odd) = [''${cwd}'']
   \<and> resolveVariables host_odd [''${cwd}:${workspaceFolder:${cwd}}''] None = [''/w:/w/odd'']
   \<and> occurrences ''${cwd}'' ''${cwd}:${workspaceFolder:${cwd}}'' = 2
   \<and> occurrences ''${cwd}'' ''/w:/w/odd'' = 0
   \<and> map name (getWorkspaceFolders host_bordered) = [''}${workspaceFolder:'']
   \<and> resolveVariables host_bordered
       [''${workspaceFolder:}${workspaceFolder:}${workspaceFolder:}''] None
     = [''/w/x${workspaceFolder:}'']
   \<and> occurrences ''${workspaceFolder:}${workspaceFolder:}''
       ''${workspaceFolder:}${workspaceFolder:}${workspaceFolder:}'' = 2
   \<and> occurrences ''${workspaceFolder:}${workspaceFolder:}'' ''/w/x${workspaceFolder:}'' = 0"
proof (intro conjI)
  show "map name (getWorkspaceFolders host_odd) = [''${cwd}'']"
    by (simp add: host_odd_def folderOdd_def)
  show "resolveVariables host_odd [''${cwd}:${workspaceFolder:${cwd}}''] None = [''/w:/w/odd'']"
    by code_simp
  show "occurrences ''${cwd}'' ''${cwd}:${workspaceFolder:${cwd}}'' = 2"
    by code_simp
  show "occurrences ''${cwd}'' ''/w:/w/odd'' = 0"
    by code_simp
  show "map name (getWorkspaceFolders host_bordered) = [''}${workspaceFolder:'']"
    by (simp add: host_bordered_def folderBordered_def)
  show "resolveVariables host_bordered
       [''${workspaceFolder:}${workspaceFolder:}${workspaceFolder:}''] None
     = [''/w/x${workspaceFolder:}'']"
    by code_simp
  show "occurrences ''${workspaceFolder:}${workspaceFolder:}''
       ''${workspaceFolder:}${workspaceFolder:}${workspaceFolder:}'' = 2"
    by code_simp
  show "occurrences ''${workspaceFolder:}${workspaceFolder:}'' ''/w/x${workspaceFolder:}'' = 0"
    by code_simp
qed

text \<open>
  Claim C8, amended. Only the first occurrence of a placeholder is replaced. The table has
  every placeholder once, so the loop calls \<open>replace\<close> once for each; and the call for
  \<open>k\<close> on a string with two occurrences of \<open>k\<close> leaves all that follows the first
  occurrence in place, the second occurrence with it, whatever the strings are. For the
  whole loop: let \<open>q\<close> be a placeholder of the table and let no replacement that the loop
  makes on a string take a character from an occurrence of \<open>q\<close> other than the occurrence
  it replaces. Then the result has at most one occurrence of \<open>q\<close> fewer than the string:
  a string with \<open>q\<close> twice keeps an occurrence.
\<close>

theorem resolveVariables_first_occurrence:
  "distinct (map fst (substitutions host folder))
   \<and> suffix (b @ k @ c) (String_replace (a @ k @ b @ k @ c) k v)
   \<and> (\<forall>q \<in> fst ` set (substitutions host folder). \<forall>i < length strings.
        keeps q (substitutions host folder) (strings ! i) \<longrightarrow>
        occurrences q (strings ! i)
          \<le> Suc (occurrences q (resolveVariables host strings folder ! i)))"
proof (intro conjI ballI allI impI)
  show "distinct (map fst (substitutions host folder))"
    by (rule substitutions_distinct)
  show "suffix (b @ k @ c) (String_replace (a @ k @ b @ k @ c) k v)"
    by (rule String_replace_keeps_rest)
next
  fix q i
  assume q: "q \<in> fst ` set (substitutions host folder)"
    and i: "i < length strings"
    and kp: "keeps q (substitutions host folder) (strings ! i)"
  from q substitutions_nonempty [of host folder] have "q \<noteq> []" by blast
  then have "occurrences q (strings ! i)
      \<le> occurrences q (substitute (substitutions host folder) (strings ! i))
        + (if q \<in> fst ` set (substitutions host folder) then 1 else 0)"
    using substitutions_distinct kp by (rule occurrences_keeps)
  with q i show "occurrences q (strings ! i)
      \<le> Suc (occurrences q (resolveVariables host strings folder ! i))"
    by (simp add: resolveVariables_def)
qed

theorem resolveVariables_first_occurrence_witness:
  "keeps ''${cwd}'' (substitutions host_odd None) ''${cwd}/a:${cwd}/b''
   \<and> resolveVariables host_odd [''${cwd}/a:${cwd}/b''] None = [''/w/a:${cwd}/b'']
   \<and> occurrences ''${cwd}'' ''${cwd}/a:${cwd}/b'' = 2
   \<and> occurrences ''${cwd}'' ''/w/a:${cwd}/b'' = 1"
proof -
  have kp: "keeps ''${cwd}'' (substitutions host_odd None) ''${cwd}/a:${cwd}/b''"
    by code_simp
  have key: "''${cwd}'' \<in> fst ` set (substitutions host_odd None)"
    by code_simp
  have r: "resolveVariables host_odd [''${cwd}/a:${cwd}/b''] None = [''/w/a:${cwd}/b'']"
    by code_simp
  note t = resolveVariables_first_occurrence [where host = host_odd and folder = None
      and strings = "[''${cwd}/a:${cwd}/b'']"]
  have "occurrences ''${cwd}'' ([''${cwd}/a:${cwd}/b''] ! 0)
      \<le> Suc (occurrences ''${cwd}''
          (resolveVariables host_odd [''${cwd}/a:${cwd}/b''] None ! 0))"
    using t [THEN conjunct2, THEN conjunct2, THEN bspec, OF key, THEN spec, of 0] kp
    by simp
  moreover have "occurrences ''${cwd}'' ''${cwd}/a:${cwd}/b'' = 2" by code_simp
  moreover have "occurrences ''${cwd}'' ''/w/a:${cwd}/b'' = 1" by code_simp
  ultimately show ?thesis using kp r by simp
qed

text \<open>
  Claim C9. \<open>resolveVariables\<close> returns a list as long as its argument, and a string in
  which no placeholder of the table occurs is returned as it is. The third part spells
  the placeholders out: a string is unchanged when it contains none of \<open>${userHome}\<close>,
  \<open>${workspaceFolder}\<close>, \<open>${cwd}\<close> and \<open>${workspaceFolder:name}\<close> for the names of the
  open workspace folders.
\<close>

theorem resolveVariables_identity:
  "length (resolveVariables host strings folder) = length strings
   \<and> (\<forall>i < length strings.
        (\<forall>k \<in> fst ` set (substitutions host folder). \<not> sublist k (strings ! i))
        \<longrightarrow> resolveVariables host strings folder ! i = strings ! i)
   \<and> (\<forall>i < length strings.
        \<not> sublist ''${userHome}'' (strings ! i)
        \<and> \<not> sublist ''${workspaceFolder}'' (strings ! i)
        \<and> \<not> sublist ''${cwd}'' (strings ! i)
        \<and> (\<forall>w \<in> set (getWorkspaceFolders host).
              \<not> sublist (''${workspaceFolder:'' @ name w @ ''}'') (strings ! i))
        \<longrightarrow> resolveVariables host strings folder ! i = strings ! i)"
proof (intro conjI allI impI)
  show "length (resolveVariables host strings folder) = length strings"
    by (simp add: resolveVariables_def)
next
  fix i
  assume "i < length strings"
    and "\<forall>k \<in> fst ` set (substitutions host folder). \<not> sublist k (strings ! i)"
  then show "resolveVariables host strings folder ! i = strings ! i"
    by (simp add: resolveVariables_def substitute_absent)
next
  fix i
  assume i: "i < length strings"
    and h: "\<not> sublist ''${userHome}'' (strings ! i)
        \<and> \<not> sublist ''${workspaceFolder}'' (strings ! i)
        \<and> \<not> sublist ''${cwd}'' (strings ! i)
        \<and> (\<forall>w \<in> set (getWorkspaceFolders host).
              \<not> sublist (''${workspaceFolder:'' @ name w @ ''}'') (strings ! i))"
  have "\<forall>k \<in> fst ` set (substitutions host folder). \<not> sublist k (strings ! i)"
    unfolding substitutions_keys using h by (auto split: if_splits option.splits)
  with i show "resolveVariables host strings folder ! i = strings ! i"
    by (simp add: resolveVariables_def substitute_absent)
qed

theorem resolveVariables_identity_witness:
  "length (resolveVariables host_set [''--preview'', ''${env:X}/y'', ''${cwd}/z''] (Some folderA)) = 3
   \<and> resolveVariables host_set [''--preview'', ''${env:X}/y'', ''${cwd}/z''] (Some folderA) ! 1
       = ''${env:X}/y''"
proof -
  have h: "\<not> sublist ''${userHome}'' ''${env:X}/y''
        \<and> \<not> sublist ''${workspaceFolder}'' ''${env:X}/y''
        \<and> \<not> sublist ''${cwd}'' ''${env:X}/y''
        \<and> (\<forall>w \<in> set (getWorkspaceFolders host_set).
              \<not> sublist (''${workspaceFolder:'' @ name w @ ''}'') ''${env:X}/y'')"
    by code_simp
  note t = resolveVariables_identity
    [of host_set "[''--preview'', ''${env:X}/y'', ''${cwd}/z'']" "Some folderA"]
  from t have "length (resolveVariables host_set [''--preview'', ''${env:X}/y'', ''${cwd}/z'']
      (Some folderA)) = 3"
    by simp
  moreover from t [THEN conjunct2, THEN conjunct2, rule_format, of 1] h
  have "resolveVariables host_set [''--preview'', ''${env:X}/y'', ''${cwd}/z''] (Some folderA) ! 1
       = ''${env:X}/y''"
    by simp
  ultimately show ?thesis by (intro conjI)
qed

end
